theory Spec2Isabelle
  imports Main "HOL-Library.Sublist" "HOL-Library.Char_ord" "HOL-Library.List_Lexorder"
begin

section \<open>JavaScript string and array primitives used by index.js\<close>

text \<open>
  A string is a list of characters. A character of the model stands for a UTF-16 code
  unit below 256 (the Latin-1 range); the white space and the case mapping below are
  those of ECMAScript restricted to that range.
\<close>

definition isWhiteSpace :: "char \<Rightarrow> bool" where
  "isWhiteSpace c = (c = CHR 0x09 \<or> c = CHR 0x0A \<or> c = CHR 0x0B \<or> c = CHR 0x0C
     \<or> c = CHR 0x0D \<or> c = CHR 0x20 \<or> c = CHR 0xA0)"

text \<open>\<^verbatim>\<open>String.prototype.trim\<close>: white space removed at both ends.\<close>

definition trim :: "string \<Rightarrow> string" where
  "trim s = rev (dropWhile isWhiteSpace (rev (dropWhile isWhiteSpace s)))"

definition lowerChar :: "char \<Rightarrow> char" where
  "lowerChar c =
     (let n = (of_char c :: nat)
      in if (65 \<le> n \<and> n \<le> 90) \<or> (192 \<le> n \<and> n \<le> 222 \<and> n \<noteq> 215)
         then char_of (n + 32) else c)"

text \<open>\<^verbatim>\<open>String.prototype.toLowerCase\<close>.\<close>

definition toLowerCase :: "string \<Rightarrow> string" where
  "toLowerCase s = map lowerChar s"

text \<open>\<^verbatim>\<open>s.startsWith(p)\<close>.\<close>

definition startsWith :: "string \<Rightarrow> string \<Rightarrow> bool" where
  "startsWith s p = (take (length p) s = p)"

text \<open>\<^verbatim>\<open>s.includes(q)\<close>: \<open>q\<close> occurs at some position of \<open>s\<close>.\<close>

fun includesStr :: "string \<Rightarrow> string \<Rightarrow> bool" where
  "includesStr [] q = (q = [])"
| "includesStr (c # cs) q = (startsWith (c # cs) q \<or> includesStr cs q)"

text \<open>\<^verbatim>\<open>s.substring(n)\<close> for a non-negative integer \<open>n\<close>.\<close>

definition substring :: "string \<Rightarrow> nat \<Rightarrow> string" where
  "substring s n = drop n s"

text \<open>
  \<^verbatim>\<open>s.replace(p, r)\<close> with a string pattern: the first occurrence of \<open>p\<close> is replaced.
  The replacements of index.js (\<^verbatim>\<open>'[x]'\<close> and \<^verbatim>\<open>''\<close>) hold no \<^verbatim>\<open>$\<close>, so no
  replacement pattern is expanded.
\<close>

fun replace :: "string \<Rightarrow> string \<Rightarrow> string \<Rightarrow> string" where
  "replace [] p r = (if p = [] then r else [])"
| "replace (c # cs) p r =
     (if startsWith (c # cs) p then r @ drop (length p) (c # cs) else c # replace cs p r)"

text \<open>\<^verbatim>\<open>s.split('\n')\<close>: the empty string splits into one empty line.\<close>

fun split_nl :: "string \<Rightarrow> string list" where
  "split_nl [] = [[]]"
| "split_nl (c # cs) =
     (if c = CHR 0x0A then [] # split_nl cs
      else (case split_nl cs of [] \<Rightarrow> [[c]] | l # ls \<Rightarrow> (c # l) # ls))"

text \<open>\<^verbatim>\<open>lines.join('\n')\<close>.\<close>

fun join_nl :: "string list \<Rightarrow> string" where
  "join_nl [] = []"
| "join_nl [l] = l"
| "join_nl (l # m # ls) = l @ CHR 0x0A # join_nl (m # ls)"

text \<open>
  \<^verbatim>\<open>xs.slice(0, e)\<close> for an integer \<open>e\<close>: a negative end counts from the end of the
  array, and the result is clamped to the array.
\<close>

definition slice0 :: "'a list \<Rightarrow> int \<Rightarrow> 'a list" where
  "slice0 xs e = (if e < 0 then take (nat (int (length xs) + e)) xs else take (nat e) xs)"

text \<open>\<^verbatim>\<open>xs.map((x, idx) => ({x, idx}))\<close>: every element with its index.\<close>

definition withIndex :: "'a list \<Rightarrow> ('a \<times> nat) list" where
  "withIndex xs = zip xs [0..<length xs]"

section \<open>Configuration\<close>

definition memoryFile :: string where
  "memoryFile = ''/root/.openclaw/workspace/MEMORY.md''"

definition memoryDir :: string where
  "memoryDir = ''/root/.openclaw/workspace/memory''"

definition todoMarker :: string where
  "todoMarker = ''[ ]''"

definition doneMarker :: string where
  "doneMarker = ''[x]''"

text \<open>
  \<^verbatim>\<open>path.join(CONFIG.memoryDir, `${dateStr}.md`)\<close>. The normalisation that
  \<^verbatim>\<open>path.join\<close> applies to \<^verbatim>\<open>.\<close> and \<^verbatim>\<open>..\<close> segments is not modelled: the store
  below is keyed by the joined path as written.
\<close>

definition notePath :: "string \<Rightarrow> string" where
  "notePath dateStr = memoryDir @ ''/'' @ dateStr @ ''.md''"

section \<open>The text store\<close>

text \<open>
  The file system is explicit state. \<open>files\<close> gives what a read of a path observes:
  \<open>None\<close> when the path does not exist or the read throws (\<^verbatim>\<open>readFile\<close> swallows the
  error), otherwise the text. \<open>wfail\<close> gives, for a path, the message of the exception
  that \<^verbatim>\<open>mkdirSync\<close> or \<^verbatim>\<open>writeFileSync\<close> throws there, if any; a failed write is
  taken to leave the files as they were. \<open>trace\<close> records every call of \<^verbatim>\<open>readFile\<close>
  and \<^verbatim>\<open>writeFile\<close> in order.
\<close>

datatype event = ReadEv string | WriteEv string string

record world =
  files :: "string \<Rightarrow> string option"
  wfail :: "string \<Rightarrow> string option"
  trace :: "event list"

fun isWrite :: "event \<Rightarrow> bool" where
  "isWrite (WriteEv p c) = True"
| "isWrite (ReadEv p) = False"

definition readFile :: "string \<Rightarrow> world \<Rightarrow> string option \<times> world" where
  "readFile filePath w = (files w filePath, w\<lparr>trace := trace w @ [ReadEv filePath]\<rparr>)"

record write_result =
  wr_success :: bool
  wr_error :: "string option"

definition writeFile :: "string \<Rightarrow> string \<Rightarrow> world \<Rightarrow> write_result \<times> world" where
  "writeFile filePath content w =
     (case wfail w filePath of
        None \<Rightarrow>
          (\<lparr>wr_success = True, wr_error = None\<rparr>,
           w\<lparr>files := (files w)(filePath \<mapsto> content),
             trace := trace w @ [WriteEv filePath content]\<rparr>)
      | Some msg \<Rightarrow>
          (\<lparr>wr_success = False, wr_error = Some msg\<rparr>,
           w\<lparr>trace := trace w @ [WriteEv filePath content]\<rparr>))"

text \<open>\<^verbatim>\<open>x || ''\<close> on the result of \<^verbatim>\<open>readFile\<close>: \<^verbatim>\<open>null\<close> and the empty string give \<^verbatim>\<open>''\<close>.\<close>

definition orEmpty :: "string option \<Rightarrow> string" where
  "orEmpty x = (case x of None \<Rightarrow> [] | Some s \<Rightarrow> s)"

text \<open>\<^verbatim>\<open>!x\<close> on the result of \<^verbatim>\<open>readFile\<close>: \<^verbatim>\<open>null\<close> and the empty string are falsy.\<close>

definition falsy :: "string option \<Rightarrow> bool" where
  "falsy x = (case x of None \<Rightarrow> True | Some s \<Rightarrow> s = [])"

section \<open>Memory log\<close>

definition getMemory :: "world \<Rightarrow> string \<times> world" where
  "getMemory w = (let (r, w1) = readFile memoryFile w in (orEmpty r, w1))"

record add_memory_result =
  am_success :: bool
  am_entry :: string
  am_category :: string
  am_timestamp :: string

text \<open>
  \<open>category\<close> is the argument after its default \<^verbatim>\<open>'General'\<close> has been applied, and
  \<open>timestamp\<close> is what \<^verbatim>\<open>new Date().toISOString()\<close> returns at the call.
\<close>

definition memorySection :: "string \<Rightarrow> string \<Rightarrow> string \<Rightarrow> string" where
  "memorySection category timestamp entry =
     CHR 0x0A # ''## '' @ category @ CHR 0x0A # ''- **'' @ timestamp @ ''**: '' @ entry"

definition addMemory :: "string \<Rightarrow> string \<Rightarrow> string \<Rightarrow> world \<Rightarrow> add_memory_result \<times> world" where
  "addMemory entry category timestamp w =
     (let (content, w1) = getMemory w;
          newEntry = memorySection category timestamp entry;
          newContent = content @ newEntry;
          (result, w2) = writeFile memoryFile newContent w1
      in (\<lparr>am_success = wr_success result, am_entry = entry, am_category = category,
           am_timestamp = timestamp\<rparr>, w2))"

datatype search_result =
  NoQuery "string list" string
  | Matches string nat "string list"

text \<open>
  The two values computed before the guard are not used afterwards, but the first is a
  call of \<^verbatim>\<open>getMemory\<close> and so a read of the memory file.
\<close>

definition searchMemory :: "string \<Rightarrow> world \<Rightarrow> search_result \<times> world" where
  "searchMemory query w =
     (let (c0, w1) = getMemory w;
          content = toLowerCase c0;
          queryLower = toLowerCase query
      in if query = [] then (NoQuery [] ''No query provided'', w1)
         else
           (let (c1, w2) = getMemory w1;
                lines = split_nl c1;
                matches =
                  filter (\<lambda>line. length line > 0)
                    (map (\<lambda>(line, idx). trim line)
                      (filter (\<lambda>(line, idx). includesStr (toLowerCase line) queryLower)
                        (withIndex lines)))
            in (Matches query (length matches) (slice0 matches 20), w2)))"

section \<open>Daily notes\<close>

record note_result =
  nr_exists :: bool
  nr_date :: string
  nr_content :: "string option"

text \<open>
  \<open>dateStr\<close> is the argument after its default \<^verbatim>\<open>todayStr()\<close> has been applied, here
  and in the operations below. The guard is \<^verbatim>\<open>!content\<close>.
\<close>

definition getDailyNote :: "string \<Rightarrow> world \<Rightarrow> note_result \<times> world" where
  "getDailyNote dateStr w =
     (let filePath = notePath dateStr;
          (content, w1) = readFile filePath w
      in if falsy content
         then (\<lparr>nr_exists = False, nr_date = dateStr, nr_content = None\<rparr>, w1)
         else (\<lparr>nr_exists = True, nr_date = dateStr, nr_content = content\<rparr>, w1))"

record add_note_result =
  an_success :: bool
  an_date :: string
  an_entry :: string
  an_timestamp :: string

definition addDailyNote :: "string \<Rightarrow> string \<Rightarrow> string \<Rightarrow> world \<Rightarrow> add_note_result \<times> world" where
  "addDailyNote entry dateStr timestamp w =
     (let filePath = notePath dateStr;
          (r, w1) = readFile filePath w;
          content = orEmpty r;
          newEntry = ''- **'' @ timestamp @ ''**: '' @ entry @ [CHR 0x0A];
          content' = content @ newEntry;
          (result, w2) = writeFile filePath content' w1
      in (\<lparr>an_success = wr_success result, an_date = dateStr, an_entry = entry,
           an_timestamp = timestamp\<rparr>, w2))"

text \<open>
  The regular expression \<^verbatim>\<open>/^\d{4}-\d{2}-\d{2}\.md$/\<close> as a list of atoms, matched
  against the whole string: \<^verbatim>\<open>\d\<close> is an ASCII digit, and without the \<^verbatim>\<open>m\<close> flag
  \<^verbatim>\<open>$\<close> is the end of the input.
\<close>

datatype atom = Digit | Lit char

definition isDigit :: "char \<Rightarrow> bool" where
  "isDigit c = (CHR ''0'' \<le> c \<and> c \<le> CHR ''9'')"

fun matchAtoms :: "atom list \<Rightarrow> string \<Rightarrow> bool" where
  "matchAtoms [] s = (s = [])"
| "matchAtoms (a # as) [] = False"
| "matchAtoms (Digit # as) (c # cs) = (isDigit c \<and> matchAtoms as cs)"
| "matchAtoms (Lit d # as) (c # cs) = (c = d \<and> matchAtoms as cs)"

definition dailyNotePattern :: "atom list" where
  "dailyNotePattern =
     [Digit, Digit, Digit, Digit, Lit CHR ''-'', Digit, Digit, Lit CHR ''-'', Digit, Digit,
      Lit CHR ''.'', Lit CHR ''m'', Lit CHR ''d'']"

text \<open>
  \<^verbatim>\<open>a.localeCompare(b)\<close>. The comparator of \<^verbatim>\<open>listDailyNotes\<close> is only applied to
  names that passed the pattern: digits with the same punctuation at the same places, which
  every collation orders as their code units do. The model compares code units.
\<close>

definition localeCompare :: "string \<Rightarrow> string \<Rightarrow> int" where
  "localeCompare a b = (if a < b then - 1 else if a = b then 0 else 1)"

text \<open>
  \<^verbatim>\<open>xs.sort(cmp)\<close>: a stable sort; \<open>x\<close> is placed before \<open>y\<close> when \<open>cmp x y\<close> is not
  positive.
\<close>

fun insertBy :: "('a \<Rightarrow> 'a \<Rightarrow> int) \<Rightarrow> 'a \<Rightarrow> 'a list \<Rightarrow> 'a list" where
  "insertBy cmp x [] = [x]"
| "insertBy cmp x (y # ys) = (if cmp x y \<le> 0 then x # y # ys else y # insertBy cmp x ys)"

definition sortBy :: "('a \<Rightarrow> 'a \<Rightarrow> int) \<Rightarrow> 'a list \<Rightarrow> 'a list" where
  "sortBy cmp xs = foldr (insertBy cmp) xs []"

record list_result =
  lr_notes :: "string list"
  lr_count :: nat
  lr_error :: "string option"

text \<open>
  \<open>readdir\<close> is the outcome of \<^verbatim>\<open>fs.readdirSync(CONFIG.memoryDir)\<close>: the names in the
  directory, or \<open>Inl\<close> the message of the exception it throws. \<open>limit\<close> is the argument
  after its default \<^verbatim>\<open>10\<close> has been applied, an integer.
\<close>

definition listDailyNotes :: "string + string list \<Rightarrow> int \<Rightarrow> list_result" where
  "listDailyNotes readdir limit =
     (case readdir of
        Inr fs \<Rightarrow>
          (let notes =
             map (\<lambda>f. replace f ''.md'' [])
               (slice0 (sortBy (\<lambda>a b. localeCompare b a) (filter (matchAtoms dailyNotePattern) fs))
                  limit)
           in \<lparr>lr_notes = notes, lr_count = length notes, lr_error = None\<rparr>)
      | Inl msg \<Rightarrow> \<lparr>lr_notes = [], lr_count = 0, lr_error = Some msg\<rparr>)"

section \<open>TODO engine\<close>

record todo_item =
  ti_text :: string
  ti_done :: bool
  ti_line :: nat

text \<open>
  The result of \<^verbatim>\<open>getTODOs\<close>: the object returned for a missing note has no \<^verbatim>\<open>count\<close>
  property, which is \<open>None\<close> here.
\<close>

record todos_result =
  tr_todos :: "todo_item list"
  tr_date :: string
  tr_count :: "nat option"

definition isTodoLine :: "string \<Rightarrow> bool" where
  "isTodoLine line = (startsWith (trim line) todoMarker \<or> startsWith (trim line) doneMarker)"

definition todoOfLine :: "string \<times> nat \<Rightarrow> todo_item" where
  "todoOfLine = (\<lambda>(line, idx).
     \<lparr>ti_text = trim (substring (trim line) 4),
      ti_done = startsWith (trim line) doneMarker,
      ti_line = idx\<rparr>)"

text \<open>
  \<^verbatim>\<open>getDailyNote\<close> returns \<^verbatim>\<open>exists: true\<close> only together with a string as
  \<^verbatim>\<open>content\<close> (\<open>getDailyNote_exists_content\<close> below), so the \<open>None\<close> branch of the
  case, where \<^verbatim>\<open>note.content.split\<close> would throw, is never taken.
\<close>

definition getTODOs :: "string \<Rightarrow> world \<Rightarrow> todos_result \<times> world" where
  "getTODOs dateStr w =
     (let (note, w1) = getDailyNote dateStr w
      in if \<not> nr_exists note
         then (\<lparr>tr_todos = [], tr_date = dateStr, tr_count = None\<rparr>, w1)
         else
           (case nr_content note of
              None \<Rightarrow> (\<lparr>tr_todos = [], tr_date = dateStr, tr_count = None\<rparr>, w1)
            | Some content \<Rightarrow>
                (let lines = split_nl content;
                     todos = map todoOfLine
                               (filter (\<lambda>(line, idx). isTodoLine line) (withIndex lines))
                 in (\<lparr>tr_todos = todos, tr_date = dateStr, tr_count = Some (length todos)\<rparr>,
                     w1))))"

record add_todo_result =
  at_success :: bool
  at_date :: string
  at_todo :: string

definition addTODO :: "string \<Rightarrow> string \<Rightarrow> world \<Rightarrow> add_todo_result \<times> world" where
  "addTODO todo dateStr w =
     (let filePath = notePath dateStr;
          (r, w1) = readFile filePath w;
          content = orEmpty r;
          content1 = (if \<not> includesStr content ''## TODOs''
                      then content @ CHR 0x0A # ''## TODOs'' @ [CHR 0x0A] else content);
          newEntry = ''- '' @ todoMarker @ '' '' @ todo @ [CHR 0x0A];
          content2 = content1 @ newEntry;
          (result, w2) = writeFile filePath content2 w1
      in (\<lparr>at_success = wr_success result, at_date = dateStr, at_todo = todo\<rparr>, w2))"

text \<open>
  The loop of \<^verbatim>\<open>completeTODO\<close>: the lines after the scan and the flag \<^verbatim>\<open>found\<close>. The
  first line whose trimmed form starts with the pending marker and includes \<open>todoText\<close>
  is assigned the trimmed form with the marker replaced, and the scan stops.
\<close>

fun completeLoop :: "string \<Rightarrow> string list \<Rightarrow> string list \<times> bool" where
  "completeLoop todoText [] = ([], False)"
| "completeLoop todoText (l # ls) =
     (let line = trim l
      in if startsWith line todoMarker \<and> includesStr line todoText
         then (replace line todoMarker doneMarker # ls, True)
         else (let (ls', found) = completeLoop todoText ls in (l # ls', found)))"

text \<open>
  The three objects \<^verbatim>\<open>completeTODO\<close> returns: \<^verbatim>\<open>{success: false, error}\<close>,
  \<^verbatim>\<open>{success: false, error, todo}\<close> and \<^verbatim>\<open>{success, todo, completed: true}\<close>.
\<close>

datatype complete_result =
  Failure string
  | FailureTodo string string
  | Completed bool string

text \<open>
  The guard \<^verbatim>\<open>!content\<close> holds when \<^verbatim>\<open>readFile\<close> returned \<^verbatim>\<open>null\<close> and when it
  returned the empty string: the first two branches below are its one \<^verbatim>\<open>return\<close>.
\<close>

definition completeTODO :: "string \<Rightarrow> string \<Rightarrow> world \<Rightarrow> complete_result \<times> world" where
  "completeTODO todoText dateStr w =
     (let filePath = notePath dateStr;
          (content, w1) = readFile filePath w
      in case content of
           None \<Rightarrow> (Failure ''Daily note not found'', w1)
         | Some text \<Rightarrow>
             if text = [] then (Failure ''Daily note not found'', w1)
             else
               (let (lines, found) = completeLoop todoText (split_nl text)
                in if \<not> found then (FailureTodo ''TODO not found'' todoText, w1)
                   else
                     (let (result, w2) = writeFile filePath (join_nl lines) w1
                      in (Completed (wr_success result) todoText, w2))))"

section \<open>Lines of a document\<close>

lemma split_nl_nonempty: "split_nl s \<noteq> []"
  by (induction s) (auto split: list.splits)

lemma join_nl_Cons_Cons: "join_nl ((c # l) # ls) = c # join_nl (l # ls)"
  by (cases ls) auto

lemma join_split: "join_nl (split_nl s) = s"
proof (induction s)
  case Nil
  then show ?case by simp
next
  case (Cons c cs)
  obtain l ls where sp: "split_nl cs = l # ls"
    using split_nl_nonempty [of cs] by (cases "split_nl cs") auto
  show ?case
  proof (cases "c = CHR 0x0A")
    case True
    then show ?thesis using Cons.IH sp by simp
  next
    case False
    then show ?thesis using Cons.IH sp by (simp add: join_nl_Cons_Cons)
  qed
qed

lemma split_nl_no_newline: "l \<in> set (split_nl s) \<Longrightarrow> CHR 0x0A \<notin> set l"
proof (induction s arbitrary: l)
  case Nil
  then show ?case by simp
next
  case (Cons c cs)
  then show ?case
    by (cases "split_nl cs") (auto split: if_splits)
qed

lemma split_nl_line: "CHR 0x0A \<notin> set l \<Longrightarrow> split_nl l = [l]"
  by (induction l) auto

lemma split_nl_append: "CHR 0x0A \<notin> set l \<Longrightarrow> split_nl (l @ CHR 0x0A # r) = l # split_nl r"
  by (induction l) auto

lemma split_join:
  "ls \<noteq> [] \<Longrightarrow> \<forall>l \<in> set ls. CHR 0x0A \<notin> set l \<Longrightarrow> split_nl (join_nl ls) = ls"
proof (induction ls rule: join_nl.induct)
  case 1
  then show ?case by simp
next
  case (2 l)
  then show ?case by (simp add: split_nl_line)
next
  case (3 l m ls)
  then show ?case by (simp add: split_nl_append)
qed

section \<open>Trimming, matching and replacing\<close>

lemma includesStr_empty: "includesStr s []"
  by (cases s) (simp_all add: startsWith_def)

lemma replace_at_start: "startsWith s p \<Longrightarrow> replace s p r = r @ drop (length p) s"
  by (cases s) (auto simp: startsWith_def)

lemma set_trim: "set (trim s) \<subseteq> set s"
proof -
  have "set (trim s) \<subseteq> set (dropWhile isWhiteSpace s)"
    unfolding trim_def using set_dropWhileD by fastforce
  also have "\<dots> \<subseteq> set s" using set_dropWhileD by fastforce
  finally show ?thesis .
qed

lemma trim_keeps_prefix:
  assumes "p \<noteq> []" and "\<forall>c \<in> set p. \<not> isWhiteSpace c"
  shows "startsWith (trim (p @ s)) p"
proof -
  have h: "\<not> isWhiteSpace (hd p)" using assms by (cases p) auto
  have l: "dropWhile isWhiteSpace (p @ s) = p @ s"
    using assms h by (cases p) auto
  have r: "dropWhile isWhiteSpace (rev p) = rev p"
    using assms by (cases "rev p") auto
  have "\<exists>zs. dropWhile isWhiteSpace (rev s @ rev p) = zs @ rev p"
    using r by (auto simp: dropWhile_append)
  then obtain zs where "dropWhile isWhiteSpace (rev s @ rev p) = zs @ rev p" by blast
  then have "trim (p @ s) = p @ rev zs"
    by (simp add: trim_def l)
  then show ?thesis by (simp add: startsWith_def)
qed

lemma trim_last: "trim s \<noteq> [] \<Longrightarrow> \<not> isWhiteSpace (last (trim s))"
proof -
  assume a: "trim s \<noteq> []"
  let ?d = "dropWhile isWhiteSpace (rev (dropWhile isWhiteSpace s))"
  have "?d \<noteq> []" using a by (simp add: trim_def)
  then have "\<not> isWhiteSpace (hd ?d)" by (rule hd_dropWhile)
  moreover have "last (trim s) = hd ?d"
    using \<open>?d \<noteq> []\<close> by (simp add: trim_def last_rev)
  ultimately show ?thesis by simp
qed

lemma trim_id:
  assumes "s \<noteq> []" and "\<not> isWhiteSpace (hd s)" and "\<not> isWhiteSpace (last s)"
  shows "trim s = s"
proof -
  have l: "dropWhile isWhiteSpace s = s"
    using assms(1,2) by (cases s) auto
  have "rev s \<noteq> []" and "\<not> isWhiteSpace (hd (rev s))"
    using assms(1,3) by (simp_all add: hd_rev)
  then have "dropWhile isWhiteSpace (rev s) = rev s"
    by (cases "rev s") auto
  then show ?thesis by (simp add: trim_def l)
qed

lemma set_withIndex: "set (withIndex xs) = {(xs ! i, i) | i. i < length xs}"
  by (auto simp: withIndex_def set_zip)

section \<open>Properties of the memory log\<close>

lemma includes_iff: "includesStr s q \<longleftrightarrow> (\<exists>pre suf. s = pre @ q @ suf)"
proof (induction s)
  case Nil
  then show ?case by auto
next
  case (Cons c cs)
  show ?case
  proof
    assume "includesStr (c # cs) q"
    then consider "startsWith (c # cs) q" | "includesStr cs q" by auto
    then show "\<exists>pre suf. c # cs = pre @ q @ suf"
    proof cases
      case 1
      then have "c # cs = [] @ q @ drop (length q) (c # cs)"
        unfolding startsWith_def by (metis append_Nil append_take_drop_id)
      then show ?thesis by blast
    next
      case 2
      then obtain pre suf where "cs = pre @ q @ suf" using Cons.IH by blast
      then have "c # cs = (c # pre) @ q @ suf" by simp
      then show ?thesis by blast
    qed
  next
    assume "\<exists>pre suf. c # cs = pre @ q @ suf"
    then obtain pre suf where eq: "c # cs = pre @ q @ suf" by blast
    show "includesStr (c # cs) q"
    proof (cases pre)
      case Nil
      then have "startsWith (c # cs) q" using eq by (simp add: startsWith_def)
      then show ?thesis by simp
    next
      case (Cons a pre')
      then have "cs = pre' @ q @ suf" using eq by simp
      then have "includesStr cs q" using Cons.IH by blast
      then show ?thesis by simp
    qed
  qed
qed

lemma includes_append: "includesStr (pre @ q @ suf) q"
  unfolding includes_iff by blast

lemma includesStr_sublist: "includesStr s q \<longleftrightarrow> sublist q s"
  unfolding includes_iff sublist_def by blast

lemma map_filter_zip:
  "length xs = length ys \<Longrightarrow>
   map (\<lambda>(a, b). f a) (filter (\<lambda>(a, b). P a) (zip xs ys)) = map f (filter P xs)"
  by (induction xs ys rule: list_induct2) auto

lemma map_filter_withIndex:
  "map (\<lambda>(line, idx). f line) (filter (\<lambda>(line, idx). P line) (withIndex xs)) = map f (filter P xs)"
  unfolding withIndex_def by (rule map_filter_zip) simp

lemma slice0_take: "0 \<le> e \<Longrightarrow> slice0 xs e = take (nat e) xs"
  by (simp add: slice0_def)

text \<open>
  C8. Under \<^verbatim>\<open>add_memory\<close> the memory document only grows: when the write goes through,
  the file holds exactly the prior content of \<^verbatim>\<open>get_memory\<close> followed by the section
  \<^verbatim>\<open>\n## <category>\n- **<timestamp>**: <entry>\<close>, so the prior content is a prefix of
  the new one, no other file changes, the call reports success, and a following
  \<^verbatim>\<open>get_memory\<close> returns a text that contains the line
  \<^verbatim>\<open>- **<timestamp>**: <entry>\<close> and ends with it.
\<close>

theorem addMemory_append_only:
  assumes "wfail w memoryFile = None"
  shows "files (snd (addMemory entry category timestamp w)) memoryFile =
      Some (fst (getMemory w) @ CHR 0x0A # ''## '' @ category @ CHR 0x0A #
            ''- **'' @ timestamp @ ''**: '' @ entry)
    \<and> prefix (fst (getMemory w)) (fst (getMemory (snd (addMemory entry category timestamp w))))
    \<and> (\<forall>p. p \<noteq> memoryFile \<longrightarrow>
          files (snd (addMemory entry category timestamp w)) p = files w p)
    \<and> am_success (fst (addMemory entry category timestamp w))
    \<and> includesStr (fst (getMemory (snd (addMemory entry category timestamp w))))
          (''- **'' @ timestamp @ ''**: '' @ entry)
    \<and> suffix (''- **'' @ timestamp @ ''**: '' @ entry)
          (fst (getMemory (snd (addMemory entry category timestamp w))))"
proof -
  let ?prior = "fst (getMemory w)"
  let ?tline = "''- **'' @ timestamp @ ''**: '' @ entry"
  let ?head = "?prior @ CHR 0x0A # ''## '' @ category @ [CHR 0x0A]"
  let ?w' = "snd (addMemory entry category timestamp w)"
  have f: "files ?w' memoryFile = Some (?head @ ?tline)"
    using assms
    by (simp add: addMemory_def getMemory_def readFile_def writeFile_def memorySection_def
        Let_def split: prod.splits)
  have s: "am_success (fst (addMemory entry category timestamp w))"
    using assms
    by (simp add: addMemory_def getMemory_def readFile_def writeFile_def Let_def
        split: prod.splits)
  have o: "\<forall>p. p \<noteq> memoryFile \<longrightarrow> files ?w' p = files w p"
    using assms
    by (simp add: addMemory_def getMemory_def readFile_def writeFile_def Let_def
        split: prod.splits)
  have g: "fst (getMemory ?w') = ?head @ ?tline"
    using f by (simp add: getMemory_def readFile_def orEmpty_def)
  have i: "includesStr (?head @ ?tline) ?tline"
    using includes_append [of ?head ?tline "[]"] by simp
  have x: "suffix ?tline (?head @ ?tline)"
    by (rule suffixI) simp
  have p: "prefix ?prior (?head @ ?tline)"
    by (rule prefixI [of _ _ "CHR 0x0A # ''## '' @ category @ CHR 0x0A # ?tline"]) simp
  show ?thesis
    using f s o i x p unfolding g by simp
qed

theorem addMemory_append_only_witness:
  "wfail \<lparr>files = (\<lambda>p. None)(memoryFile \<mapsto> ''# Memory''), wfail = (\<lambda>p. None), trace = []\<rparr>
      memoryFile = None
   \<and> files (snd (addMemory ''likes tea'' ''General'' ''2024-01-01T00:00:00.000Z''
        \<lparr>files = (\<lambda>p. None)(memoryFile \<mapsto> ''# Memory''), wfail = (\<lambda>p. None), trace = []\<rparr>))
        memoryFile =
      Some (''# Memory'' @ CHR 0x0A # ''## General'' @ CHR 0x0A #
            ''- **2024-01-01T00:00:00.000Z**: likes tea'')"
  using addMemory_append_only [of
      "\<lparr>files = (\<lambda>p. None)(memoryFile \<mapsto> ''# Memory''), wfail = (\<lambda>p. None), trace = []\<rparr>"
      "''likes tea''" "''General''" "''2024-01-01T00:00:00.000Z''"]
  by (simp add: getMemory_def readFile_def orEmpty_def)

text \<open>
  C2, as stated, fails: \<^verbatim>\<open>searchMemory\<close> calls \<^verbatim>\<open>getMemory\<close> before it tests the
  query, so a call with the empty query does read the memory file.
\<close>

theorem searchMemory_empty_query_reads:
  "trace (snd (searchMemory [] \<lparr>files = (\<lambda>p. None), wfail = (\<lambda>p. None), trace = []\<rparr>))
     = [ReadEv memoryFile]
   \<and> trace (snd (searchMemory [] \<lparr>files = (\<lambda>p. None), wfail = (\<lambda>p. None), trace = []\<rparr>))
     \<noteq> trace \<lparr>files = (\<lambda>p. None), wfail = (\<lambda>p. None), trace = []\<rparr>"
  by (simp add: searchMemory_def getMemory_def readFile_def Let_def)

text \<open>
  C2, amended. In every state of the store \<^verbatim>\<open>search_memory\<close> with the empty query
  returns the fixed response \<^verbatim>\<open>{results: [], message: "No query provided"}\<close>, leaves every
  file as it was and performs no write: its only access to the store is one read of the
  memory file, made before the query is tested. Its result is the same in any two states of
  the store.
\<close>

theorem searchMemory_empty_query:
  "fst (searchMemory [] w) = NoQuery [] ''No query provided''
   \<and> files (snd (searchMemory [] w)) = files w
   \<and> trace (snd (searchMemory [] w)) = trace w @ [ReadEv memoryFile]
   \<and> filter isWrite (trace (snd (searchMemory [] w))) = filter isWrite (trace w)
   \<and> fst (searchMemory [] w) = fst (searchMemory [] v)"
  by (simp add: searchMemory_def getMemory_def readFile_def Let_def split: prod.splits)

lemma getMemory_files: "files (snd (getMemory w)) = files w"
  by (simp add: getMemory_def readFile_def)

lemma getMemory_again: "fst (getMemory (snd (getMemory w))) = fst (getMemory w)"
  by (simp add: getMemory_def readFile_def)

text \<open>
  C3. For a non-empty query, \<^verbatim>\<open>search_memory\<close> takes the lines of the memory document
  (its split at newlines, which joined again give the document), keeps those whose lower-case
  form contains the lower-case query as a substring, trims them and drops the ones that are
  then empty; \<^verbatim>\<open>count\<close> is the length of that whole list and \<^verbatim>\<open>results\<close> its first 20
  elements. So the results are trimmed matching lines in document order, none empty, at most
  20 of them, and \<^verbatim>\<open>count\<close> exceeds their number when more than 20 lines match. No file
  changes.
\<close>

theorem searchMemory_matches:
  assumes "query \<noteq> []"
  shows "fst (searchMemory query w) =
      Matches query
        (length (filter (\<lambda>l. l \<noteq> []) (map trim (filter (\<lambda>l. sublist (toLowerCase query) (toLowerCase l))
           (split_nl (fst (getMemory w)))))))
        (take 20 (filter (\<lambda>l. l \<noteq> []) (map trim (filter (\<lambda>l. sublist (toLowerCase query) (toLowerCase l))
           (split_nl (fst (getMemory w)))))))
    \<and> join_nl (split_nl (fst (getMemory w))) = fst (getMemory w)
    \<and> files (snd (searchMemory query w)) = files w
    \<and> (\<forall>n rs. fst (searchMemory query w) = Matches query n rs \<longrightarrow>
          subseq rs (map trim (split_nl (fst (getMemory w))))
        \<and> length rs = min 20 n
        \<and> (\<forall>r \<in> set rs. r \<noteq> [] \<and> (\<exists>l \<in> set (split_nl (fst (getMemory w))).
              r = trim l \<and> sublist (toLowerCase query) (toLowerCase l))))"
proof -
  let ?lines = "split_nl (fst (getMemory w))"
  let ?hit = "filter (\<lambda>l. sublist (toLowerCase query) (toLowerCase l)) ?lines"
  let ?M = "filter (\<lambda>l. l \<noteq> []) (map trim ?hit)"
  have r: "fst (searchMemory query w) = Matches query (length ?M) (take 20 ?M)"
  proof -
    obtain c0 w1 where g0: "getMemory w = (c0, w1)" by (cases "getMemory w")
    obtain c1 w2 where g1: "getMemory w1 = (c1, w2)" by (cases "getMemory w1")
    have "c1 = c0" using getMemory_again [of w] g0 g1 by simp
    then show ?thesis
      using assms g0 g1
      by (simp add: searchMemory_def Let_def map_filter_withIndex includesStr_sublist
          slice0_take)
  qed
  have f: "files (snd (searchMemory query w)) = files w"
    using assms by (simp add: searchMemory_def Let_def split_def getMemory_files)
  have "subseq (take 20 ?M) ?M"
    by (rule prefix_imp_subseq) (rule take_is_prefix)
  also have "subseq ?M (map trim ?hit)" by simp
  also have "subseq (map trim ?hit) (map trim ?lines)"
    by (intro subseq_map) simp
  finally have sq: "subseq (take 20 ?M) (map trim ?lines)" .
  have el: "\<forall>r \<in> set (take 20 ?M). r \<noteq> [] \<and> (\<exists>l \<in> set ?lines.
              r = trim l \<and> sublist (toLowerCase query) (toLowerCase l))"
  proof
    fix r assume "r \<in> set (take 20 ?M)"
    then have "r \<in> set ?M" by (rule in_set_takeD)
    then show "r \<noteq> [] \<and> (\<exists>l \<in> set ?lines. r = trim l \<and> sublist (toLowerCase query) (toLowerCase l))"
      by auto
  qed
  have ln: "length (take 20 ?M) = min 20 (length ?M)" by simp
  have gen: "\<forall>n rs. fst (searchMemory query w) = Matches query n rs \<longrightarrow>
          subseq rs (map trim ?lines)
        \<and> length rs = min 20 n
        \<and> (\<forall>r \<in> set rs. r \<noteq> [] \<and> (\<exists>l \<in> set ?lines.
              r = trim l \<and> sublist (toLowerCase query) (toLowerCase l)))"
  proof (intro allI impI)
    fix n rs assume "fst (searchMemory query w) = Matches query n rs"
    then have "n = length ?M" and "rs = take 20 ?M" using r by simp_all
    then show "subseq rs (map trim ?lines)
        \<and> length rs = min 20 n
        \<and> (\<forall>r \<in> set rs. r \<noteq> [] \<and> (\<exists>l \<in> set ?lines.
              r = trim l \<and> sublist (toLowerCase query) (toLowerCase l)))"
      using sq el ln by blast
  qed
  show ?thesis
    using r f gen join_split [of "fst (getMemory w)"] by blast
qed

theorem searchMemory_matches_witness:
  "''tea'' \<noteq> []
   \<and> fst (searchMemory ''tea''
        \<lparr>files = (\<lambda>p. None)(memoryFile \<mapsto> ''# Log'' @ CHR 0x0A # ''- likes Tea '' @ CHR 0x0A #
                    ''  '' @ CHR 0x0A # ''coffee'' @ CHR 0x0A # ''TEA time''),
         wfail = (\<lambda>p. None), trace = []\<rparr>)
      = Matches ''tea'' 2 [''- likes Tea'', ''TEA time'']
   \<and> subseq [''- likes Tea'', ''TEA time'']
        (map trim (split_nl (fst (getMemory
          \<lparr>files = (\<lambda>p. None)(memoryFile \<mapsto> ''# Log'' @ CHR 0x0A # ''- likes Tea '' @ CHR 0x0A #
                    ''  '' @ CHR 0x0A # ''coffee'' @ CHR 0x0A # ''TEA time''),
           wfail = (\<lambda>p. None), trace = []\<rparr>))))
   \<and> fst (searchMemory ''a''
        \<lparr>files = (\<lambda>p. None)(memoryFile \<mapsto> concat (replicate 21 (''a'' @ [CHR 0x0A]))),
         wfail = (\<lambda>p. None), trace = []\<rparr>)
      = Matches ''a'' 21 (replicate 20 ''a'')"
proof -
  let ?W = "\<lparr>files = (\<lambda>p. None)(memoryFile \<mapsto> ''# Log'' @ CHR 0x0A # ''- likes Tea '' @ CHR 0x0A #
                    ''  '' @ CHR 0x0A # ''coffee'' @ CHR 0x0A # ''TEA time''),
             wfail = (\<lambda>p. None), trace = []\<rparr>"
  have q: "''tea'' \<noteq> []" by simp
  have e: "fst (searchMemory ''tea'' ?W) = Matches ''tea'' 2 [''- likes Tea'', ''TEA time'']"
    by code_simp
  have s: "subseq [''- likes Tea'', ''TEA time''] (map trim (split_nl (fst (getMemory ?W))))"
    using searchMemory_matches [OF q, of ?W] e by blast
  have m: "fst (searchMemory ''a''
        \<lparr>files = (\<lambda>p. None)(memoryFile \<mapsto> concat (replicate 21 (''a'' @ [CHR 0x0A]))),
         wfail = (\<lambda>p. None), trace = []\<rparr>)
      = Matches ''a'' 21 (replicate 20 ''a'')"
    by code_simp
  show ?thesis using q e s m by blast
qed

section \<open>Properties of the daily notes\<close>

lemma getDailyNote_exists_content:
  "nr_exists (fst (getDailyNote d w)) \<Longrightarrow> \<exists>c. nr_content (fst (getDailyNote d w)) = Some c \<and> c \<noteq> []"
  by (auto simp: getDailyNote_def readFile_def falsy_def Let_def split: option.splits if_splits)

text \<open>
  C6, amended. \<^verbatim>\<open>get_daily_note\<close> on a date whose file is absent or empty returns
  \<^verbatim>\<open>{exists: false, date, content: null}\<close>; a date whose file has non-empty content is
  reported as existing, with that content; and after an \<^verbatim>\<open>add_daily_note\<close> on the date
  whose write goes through, \<^verbatim>\<open>get_daily_note\<close> returns \<^verbatim>\<open>exists: true\<close> and the
  prior content followed by the appended line, which the content therefore contains.
\<close>

theorem getDailyNote_absent_vs_present:
  "(files w (notePath d) = None \<or> files w (notePath d) = Some [] \<longrightarrow>
      fst (getDailyNote d w) = \<lparr>nr_exists = False, nr_date = d, nr_content = None\<rparr>)
   \<and> (\<forall>c. files w (notePath d) = Some c \<and> c \<noteq> [] \<longrightarrow>
      fst (getDailyNote d w) = \<lparr>nr_exists = True, nr_date = d, nr_content = Some c\<rparr>)
   \<and> (wfail w (notePath d) = None \<longrightarrow>
      fst (getDailyNote d (snd (addDailyNote entry d timestamp w))) =
        \<lparr>nr_exists = True, nr_date = d,
         nr_content = Some (orEmpty (files w (notePath d)) @
                            ''- **'' @ timestamp @ ''**: '' @ entry @ [CHR 0x0A])\<rparr>
      \<and> includesStr (orEmpty (files w (notePath d)) @
                      ''- **'' @ timestamp @ ''**: '' @ entry @ [CHR 0x0A])
           (''- **'' @ timestamp @ ''**: '' @ entry))"
proof -
  have a: "files w (notePath d) = None \<or> files w (notePath d) = Some [] \<longrightarrow>
      fst (getDailyNote d w) = \<lparr>nr_exists = False, nr_date = d, nr_content = None\<rparr>"
    by (auto simp: getDailyNote_def readFile_def falsy_def Let_def)
  have b: "\<forall>c. files w (notePath d) = Some c \<and> c \<noteq> [] \<longrightarrow>
      fst (getDailyNote d w) = \<lparr>nr_exists = True, nr_date = d, nr_content = Some c\<rparr>"
    by (auto simp: getDailyNote_def readFile_def falsy_def Let_def)
  have c1: "wfail w (notePath d) = None \<Longrightarrow>
      fst (getDailyNote d (snd (addDailyNote entry d timestamp w))) =
        \<lparr>nr_exists = True, nr_date = d,
         nr_content = Some (orEmpty (files w (notePath d)) @
                            ''- **'' @ timestamp @ ''**: '' @ entry @ [CHR 0x0A])\<rparr>"
    by (simp add: getDailyNote_def addDailyNote_def readFile_def writeFile_def falsy_def Let_def
        split: prod.splits)
  have c2: "includesStr (orEmpty (files w (notePath d)) @
                      (''- **'' @ timestamp @ ''**: '' @ entry) @ [CHR 0x0A])
           (''- **'' @ timestamp @ ''**: '' @ entry)"
    by (rule includes_append)
  show ?thesis using a b c1 c2 by simp
qed

text \<open>
  C6, as stated, fails: the guard of \<^verbatim>\<open>getDailyNote\<close> is \<^verbatim>\<open>!content\<close>, and the empty
  string is falsy, so a file that exists with empty content is reported with
  \<^verbatim>\<open>exists: false\<close>.
\<close>

theorem getDailyNote_empty_file_not_exists:
  "files \<lparr>files = (\<lambda>p. None)(notePath ''2024-01-01'' \<mapsto> []), wfail = (\<lambda>p. None), trace = []\<rparr>
      (notePath ''2024-01-01'') = Some []
   \<and> fst (getDailyNote ''2024-01-01''
        \<lparr>files = (\<lambda>p. None)(notePath ''2024-01-01'' \<mapsto> []), wfail = (\<lambda>p. None), trace = []\<rparr>)
      = \<lparr>nr_exists = False, nr_date = ''2024-01-01'', nr_content = None\<rparr>"
  by (simp add: getDailyNote_def readFile_def falsy_def Let_def)

theorem getDailyNote_absent_vs_present_witness:
  "files \<lparr>files = (\<lambda>p. None), wfail = (\<lambda>p. None), trace = []\<rparr> (notePath ''2024-01-01'') = None
   \<and> fst (getDailyNote ''2024-01-01'' \<lparr>files = (\<lambda>p. None), wfail = (\<lambda>p. None), trace = []\<rparr>)
      = \<lparr>nr_exists = False, nr_date = ''2024-01-01'', nr_content = None\<rparr>
   \<and> wfail \<lparr>files = (\<lambda>p. None), wfail = (\<lambda>p. None), trace = []\<rparr> (notePath ''2024-01-01'') = None
   \<and> fst (getDailyNote ''2024-01-01'' (snd (addDailyNote ''met Ann'' ''2024-01-01'' ''T1''
        \<lparr>files = (\<lambda>p. None), wfail = (\<lambda>p. None), trace = []\<rparr>)))
      = \<lparr>nr_exists = True, nr_date = ''2024-01-01'',
         nr_content = Some (''- **T1**: met Ann'' @ [CHR 0x0A])\<rparr>
   \<and> files \<lparr>files = (\<lambda>p. None)(notePath ''2024-01-02'' \<mapsto> ''x''), wfail = (\<lambda>p. None), trace = []\<rparr>
        (notePath ''2024-01-02'') = Some ''x''
   \<and> fst (getDailyNote ''2024-01-02''
        \<lparr>files = (\<lambda>p. None)(notePath ''2024-01-02'' \<mapsto> ''x''), wfail = (\<lambda>p. None), trace = []\<rparr>)
      = \<lparr>nr_exists = True, nr_date = ''2024-01-02'', nr_content = Some ''x''\<rparr>"
  using getDailyNote_absent_vs_present [of
      "\<lparr>files = (\<lambda>p. None), wfail = (\<lambda>p. None), trace = []\<rparr>" "''2024-01-01''"
      "''met Ann''" "''T1''"]
    getDailyNote_absent_vs_present [of
      "\<lparr>files = (\<lambda>p. None)(notePath ''2024-01-02'' \<mapsto> ''x''), wfail = (\<lambda>p. None), trace = []\<rparr>"
      "''2024-01-02''" "''met Ann''" "''T1''"]
  by (simp add: orEmpty_def)

section \<open>Properties of the listing of daily notes\<close>

lemma matchAtoms_Digit:
  "matchAtoms (Digit # as) s \<longleftrightarrow> (\<exists>c cs. s = c # cs \<and> isDigit c \<and> matchAtoms as cs)"
  by (cases s) auto

lemma matchAtoms_Lit:
  "matchAtoms (Lit d # as) s \<longleftrightarrow> (\<exists>cs. s = d # cs \<and> matchAtoms as cs)"
  by (cases s) auto

lemma isDigit_not_dot: "isDigit c \<Longrightarrow> c \<noteq> CHR ''.''"
  by (auto simp: isDigit_def less_eq_char_def)

lemma dailyNote_shape:
  assumes "matchAtoms dailyNotePattern f"
  shows "\<exists>k. f = k @ ''.md'' \<and> length k = 10 \<and> CHR ''.'' \<notin> set k"
proof -
  from assms obtain a b c d e g h i where
    f: "f = [a, b, c, d, CHR ''-'', e, g, CHR ''-'', h, i] @ ''.md''"
    and dg: "isDigit a" "isDigit b" "isDigit c" "isDigit d" "isDigit e" "isDigit g"
      "isDigit h" "isDigit i"
    by (auto simp: dailyNotePattern_def matchAtoms_Digit matchAtoms_Lit)
  have "CHR ''.'' \<notin> set [a, b, c, d, CHR ''-'', e, g, CHR ''-'', h, i]"
    using dg isDigit_not_dot by auto
  then show ?thesis using f by (intro exI [of _ "[a, b, c, d, CHR ''-'', e, g, CHR ''-'', h, i]"]) simp
qed

lemma replace_suffix: "CHR ''.'' \<notin> set k \<Longrightarrow> replace (k @ ''.md'') ''.md'' [] = k"
  by (induction k) (auto simp: startsWith_def)

lemma set_insertBy: "set (insertBy cmp x ys) = insert x (set ys)"
  by (induction ys) auto

lemma set_sortBy: "set (sortBy cmp xs) = set xs"
  by (induction xs) (auto simp: sortBy_def set_insertBy)

lemma length_insertBy: "length (insertBy cmp x ys) = Suc (length ys)"
  by (induction ys) auto

lemma length_sortBy: "length (sortBy cmp xs) = length xs"
  by (induction xs) (auto simp: sortBy_def length_insertBy)

lemma localeCompare_le0: "localeCompare b a \<le> 0 \<longleftrightarrow> b \<le> a"
  by (auto simp: localeCompare_def)

lemma insertBy_descending:
  "sorted_wrt (\<lambda>a b. b < a) ys \<Longrightarrow> x \<notin> set ys \<Longrightarrow>
   sorted_wrt (\<lambda>a b. b < a) (insertBy (\<lambda>a b. localeCompare b a) x ys)"
proof (induction ys)
  case Nil
  then show ?case by simp
next
  case (Cons y ys)
  show ?case
  proof (cases "y \<le> x")
    case True
    then have "y < x" using Cons.prems(2) by auto
    moreover have "\<forall>z \<in> set ys. z < y" using Cons.prems(1) by simp
    ultimately have "\<forall>z \<in> set (y # ys). z < x" by auto
    then show ?thesis using True Cons.prems(1) by (simp add: localeCompare_le0)
  next
    case False
    then have "x < y" by simp
    moreover have "sorted_wrt (\<lambda>a b. b < a) (insertBy (\<lambda>a b. localeCompare b a) x ys)"
      using Cons by simp
    ultimately show ?thesis using False Cons.prems(1)
      by (simp add: localeCompare_le0 set_insertBy)
  qed
qed

lemma sortBy_descending:
  "distinct xs \<Longrightarrow> sorted_wrt (\<lambda>a b. b < a) (sortBy (\<lambda>a b. localeCompare b a) xs)"
proof (induction xs)
  case Nil
  then show ?case by (simp add: sortBy_def)
next
  case (Cons x xs)
  have "sortBy (\<lambda>a b. localeCompare b a) (x # xs)
      = insertBy (\<lambda>a b. localeCompare b a) x (sortBy (\<lambda>a b. localeCompare b a) xs)"
    by (simp add: sortBy_def)
  then show ?case using Cons by (simp add: insertBy_descending set_sortBy)
qed

lemma less_same_suffix:
  "length u = length v \<Longrightarrow> (u @ s < v @ s) = (u < (v :: string))"
  by (induction u v rule: list_induct2) auto

text \<open>
  C7, amended. For every directory listing (its names distinct) and every limit that is not
  negative, \<^verbatim>\<open>list_daily_notes\<close> returns only names that match
  \<^verbatim>\<open>^\d{4}-\d{2}-\d{2}\.md$\<close> in the listing, with the extension stripped, in strictly
  descending lexicographic order, at most \<open>limit\<close> of them (as many as the limit and the
  matching names allow), with \<^verbatim>\<open>count\<close> the length of the returned list; when reading the
  directory fails it returns \<^verbatim>\<open>{notes: [], count: 0, error}\<close>.
\<close>

theorem listDailyNotes_sorted_capped:
  assumes "0 \<le> limit" and "distinct fs"
  shows "(\<forall>n \<in> set (lr_notes (listDailyNotes (Inr fs) limit)).
            n @ ''.md'' \<in> set fs \<and> matchAtoms dailyNotePattern (n @ ''.md''))
    \<and> sorted_wrt (\<lambda>a b. b < a) (lr_notes (listDailyNotes (Inr fs) limit))
    \<and> int (length (lr_notes (listDailyNotes (Inr fs) limit))) \<le> limit
    \<and> length (lr_notes (listDailyNotes (Inr fs) limit))
        = min (nat limit) (length (filter (matchAtoms dailyNotePattern) fs))
    \<and> lr_count (listDailyNotes (Inr fs) limit) = length (lr_notes (listDailyNotes (Inr fs) limit))
    \<and> lr_error (listDailyNotes (Inr fs) limit) = None
    \<and> listDailyNotes (Inl msg) limit = \<lparr>lr_notes = [], lr_count = 0, lr_error = Some msg\<rparr>"
proof -
  let ?cmp = "\<lambda>a b. localeCompare b a"
  let ?ms = "filter (matchAtoms dailyNotePattern) fs"
  let ?top = "take (nat limit) (sortBy ?cmp ?ms)"
  let ?strip = "\<lambda>f. replace f ''.md'' []"
  have res: "listDailyNotes (Inr fs) limit =
      \<lparr>lr_notes = map ?strip ?top, lr_count = length (map ?strip ?top), lr_error = None\<rparr>"
    using assms(1) by (simp add: listDailyNotes_def Let_def slice0_take)
  have sub: "set ?top \<subseteq> set ?ms"
    using set_take_subset [of "nat limit" "sortBy ?cmp ?ms"] by (simp add: set_sortBy)
  have strip: "f = ?strip f @ ''.md'' \<and> length (?strip f) = 10" if "f \<in> set ?top" for f
  proof -
    have "matchAtoms dailyNotePattern f" using that sub by auto
    then obtain k where "f = k @ ''.md''" "length k = 10" "CHR ''.'' \<notin> set k"
      using dailyNote_shape by blast
    then show ?thesis using replace_suffix [of k] by simp
  qed
  have mem: "\<forall>n \<in> set (map ?strip ?top). n @ ''.md'' \<in> set fs
      \<and> matchAtoms dailyNotePattern (n @ ''.md'')"
  proof
    fix n assume "n \<in> set (map ?strip ?top)"
    then obtain f where f: "f \<in> set ?top" "n = ?strip f" by auto
    then have "n @ ''.md'' = f" using strip [of f] by simp
    then show "n @ ''.md'' \<in> set fs \<and> matchAtoms dailyNotePattern (n @ ''.md'')"
      using f(1) sub by auto
  qed
  have "sorted_wrt (\<lambda>a b. b < a) (sortBy ?cmp ?ms)"
    using assms(2) by (intro sortBy_descending) simp
  then have st: "sorted_wrt (\<lambda>a b. b < a) ?top"
    by (rule sorted_wrt_take)
  have "sorted_wrt (\<lambda>a b. ?strip b < ?strip a) ?top"
  proof (rule sorted_wrt_mono_rel [OF _ st])
    fix a b assume ab: "a \<in> set ?top" "b \<in> set ?top" "b < a"
    have "?strip b @ ''.md'' < ?strip a @ ''.md''"
      using ab strip [of a] strip [of b] by simp
    moreover have "length (?strip b) = length (?strip a)"
      using ab strip [of a] strip [of b] by simp
    ultimately show "?strip b < ?strip a"
      using less_same_suffix [of "?strip b" "?strip a" "''.md''"] by simp
  qed
  then have so: "sorted_wrt (\<lambda>a b. b < a) (map ?strip ?top)"
    by (simp add: sorted_wrt_map)
  have ln: "length (map ?strip ?top) = min (nat limit) (length ?ms)"
    by (simp add: length_sortBy)
  then have cap: "int (length (map ?strip ?top)) \<le> limit"
    using assms(1) by simp
  have err: "listDailyNotes (Inl msg) limit = \<lparr>lr_notes = [], lr_count = 0, lr_error = Some msg\<rparr>"
    by (simp add: listDailyNotes_def)
  show ?thesis
    unfolding res using mem so cap ln err by simp
qed

text \<open>
  C7, as stated, fails for a negative limit: \<^verbatim>\<open>slice(0, -1)\<close> drops the last element
  only, so with three notes and limit \<open>-1\<close> two entries are returned, more than the limit.
\<close>

theorem listDailyNotes_negative_limit:
  "lr_notes (listDailyNotes (Inr [''2024-01-01.md'', ''2024-01-02.md'', ''2024-01-03.md'']) (- 1))
     = [''2024-01-03'', ''2024-01-02'']
   \<and> \<not> int (length (lr_notes
        (listDailyNotes (Inr [''2024-01-01.md'', ''2024-01-02.md'', ''2024-01-03.md'']) (- 1))))
      \<le> - 1"
  by code_simp

theorem listDailyNotes_sorted_capped_witness:
  "(0::int) \<le> 2
   \<and> distinct [''2024-01-01.md'', ''todo.txt'', ''2024-01-03.md'', ''2024-01-02.md'']
   \<and> lr_notes (listDailyNotes
        (Inr [''2024-01-01.md'', ''todo.txt'', ''2024-01-03.md'', ''2024-01-02.md'']) 2)
      = [''2024-01-03'', ''2024-01-02'']
   \<and> sorted_wrt (\<lambda>a b. b < a) (lr_notes (listDailyNotes
        (Inr [''2024-01-01.md'', ''todo.txt'', ''2024-01-03.md'', ''2024-01-02.md'']) 2))
   \<and> lr_count (listDailyNotes
        (Inr [''2024-01-01.md'', ''todo.txt'', ''2024-01-03.md'', ''2024-01-02.md'']) 2) = 2"
proof -
  let ?fs = "[''2024-01-01.md'', ''todo.txt'', ''2024-01-03.md'', ''2024-01-02.md'']"
  have l: "(0::int) \<le> 2" by simp
  have d: "distinct ?fs" by simp
  have e: "lr_notes (listDailyNotes (Inr ?fs) 2) = [''2024-01-03'', ''2024-01-02'']"
    by code_simp
  have s: "sorted_wrt (\<lambda>a b. b < a) (lr_notes (listDailyNotes (Inr ?fs) 2))"
    and c: "lr_count (listDailyNotes (Inr ?fs) 2) = length (lr_notes (listDailyNotes (Inr ?fs) 2))"
    using listDailyNotes_sorted_capped [OF l d] by blast+
  show ?thesis using l d e s c by simp
qed

section \<open>Properties of the TODO engine\<close>

lemma completeLoop_none:
  "\<not> (\<exists>l \<in> set ls. startsWith (trim l) todoMarker \<and> includesStr (trim l) t)
   \<Longrightarrow> completeLoop t ls = (ls, False)"
  by (induction ls) (auto simp: Let_def)

lemma completeLoop_found_iff:
  "snd (completeLoop t ls) \<longleftrightarrow> (\<exists>l \<in> set ls. startsWith (trim l) todoMarker \<and> includesStr (trim l) t)"
  by (induction ls) (auto simp: Let_def split: prod.splits)

lemma completeLoop_first:
  "snd (completeLoop t ls) \<Longrightarrow>
   \<exists>i < length ls. startsWith (trim (ls ! i)) todoMarker \<and> includesStr (trim (ls ! i)) t
     \<and> (\<forall>j < i. \<not> (startsWith (trim (ls ! j)) todoMarker \<and> includesStr (trim (ls ! j)) t))
     \<and> fst (completeLoop t ls) = ls[i := replace (trim (ls ! i)) todoMarker doneMarker]"
proof (induction ls)
  case Nil
  then show ?case by simp
next
  case (Cons l ls)
  show ?case
  proof (cases "startsWith (trim l) todoMarker \<and> includesStr (trim l) t")
    case True
    then have "fst (completeLoop t (l # ls)) = (l # ls)[0 := replace (trim l) todoMarker doneMarker]"
      by (simp add: Let_def)
    with True show ?thesis by (intro exI [of _ 0]) simp
  next
    case False
    then have step: "completeLoop t (l # ls) = (l # fst (completeLoop t ls), snd (completeLoop t ls))"
      by (auto simp: Let_def split: prod.splits)
    then have s: "snd (completeLoop t ls)" using Cons.prems by simp
    from Cons.IH [OF s] obtain i where i: "i < length ls"
      "startsWith (trim (ls ! i)) todoMarker \<and> includesStr (trim (ls ! i)) t"
      "\<forall>j < i. \<not> (startsWith (trim (ls ! j)) todoMarker \<and> includesStr (trim (ls ! j)) t)"
      "fst (completeLoop t ls) = ls[i := replace (trim (ls ! i)) todoMarker doneMarker]"
      by blast
    have f: "fst (completeLoop t (l # ls)) = l # fst (completeLoop t ls)"
      using step by simp
    have "\<forall>j < Suc i. \<not> (startsWith (trim ((l # ls) ! j)) todoMarker
        \<and> includesStr (trim ((l # ls) ! j)) t)"
      using False i(3) by (auto simp: less_Suc_eq_0_disj)
    then show ?thesis using i f by (intro exI [of _ "Suc i"]) simp
  qed
qed

text \<open>
  C5, amended. \<^verbatim>\<open>complete_todo\<close> fails without writing: when the note of the date is
  absent or empty it returns \<^verbatim>\<open>{success: false, error: "Daily note not found"}\<close>, and when
  the note has content but no line whose trimmed form starts with the pending marker and
  contains \<open>todoText\<close>, it returns
  \<^verbatim>\<open>{success: false, error: "TODO not found", todo: todoText}\<close>. In both cases every file
  is as before and the only access to the store is the one read of the note.
\<close>

theorem completeTODO_failure_atomic:
  "(files w (notePath d) = None \<or> files w (notePath d) = Some [] \<longrightarrow>
      fst (completeTODO t d w) = Failure ''Daily note not found''
      \<and> files (snd (completeTODO t d w)) = files w
      \<and> trace (snd (completeTODO t d w)) = trace w @ [ReadEv (notePath d)])
   \<and> (\<forall>c. files w (notePath d) = Some c \<and> c \<noteq> []
        \<and> \<not> (\<exists>l \<in> set (split_nl c). startsWith (trim l) todoMarker \<and> includesStr (trim l) t)
      \<longrightarrow>
      fst (completeTODO t d w) = FailureTodo ''TODO not found'' t
      \<and> files (snd (completeTODO t d w)) = files w
      \<and> trace (snd (completeTODO t d w)) = trace w @ [ReadEv (notePath d)])"
proof -
  have a: "files w (notePath d) = None \<or> files w (notePath d) = Some [] \<Longrightarrow>
      completeTODO t d w =
        (Failure ''Daily note not found'', w\<lparr>trace := trace w @ [ReadEv (notePath d)]\<rparr>)"
    by (auto simp: completeTODO_def readFile_def falsy_def Let_def)
  have b: "completeTODO t d w =
        (FailureTodo ''TODO not found'' t, w\<lparr>trace := trace w @ [ReadEv (notePath d)]\<rparr>)"
    if "files w (notePath d) = Some c" "c \<noteq> []"
      "\<not> (\<exists>l \<in> set (split_nl c). startsWith (trim l) todoMarker \<and> includesStr (trim l) t)"
    for c
    using that completeLoop_none [of "split_nl c" t]
    by (simp add: completeTODO_def readFile_def falsy_def orEmpty_def Let_def)
  show ?thesis
    using a b by auto
qed

text \<open>
  C5, as stated, fails: for a note that exists with empty content, in which no pending line
  contains the text, the guard \<^verbatim>\<open>!content\<close> gives "Daily note not found" and not
  "TODO not found".
\<close>

theorem completeTODO_empty_note_not_found:
  "files \<lparr>files = (\<lambda>p. None)(notePath ''2024-01-01'' \<mapsto> []), wfail = (\<lambda>p. None), trace = []\<rparr>
      (notePath ''2024-01-01'') = Some []
   \<and> fst (completeTODO ''a'' ''2024-01-01''
        \<lparr>files = (\<lambda>p. None)(notePath ''2024-01-01'' \<mapsto> []), wfail = (\<lambda>p. None), trace = []\<rparr>)
      = Failure ''Daily note not found''
   \<and> fst (completeTODO ''a'' ''2024-01-01''
        \<lparr>files = (\<lambda>p. None)(notePath ''2024-01-01'' \<mapsto> []), wfail = (\<lambda>p. None), trace = []\<rparr>)
      \<noteq> FailureTodo ''TODO not found'' ''a''"
  by (simp add: completeTODO_def readFile_def falsy_def Let_def)

theorem completeTODO_failure_atomic_witness:
  "files \<lparr>files = (\<lambda>p. None), wfail = (\<lambda>p. None), trace = []\<rparr> (notePath ''2024-01-01'') = None
   \<and> fst (completeTODO ''a'' ''2024-01-01'' \<lparr>files = (\<lambda>p. None), wfail = (\<lambda>p. None), trace = []\<rparr>)
      = Failure ''Daily note not found''
   \<and> files (snd (completeTODO ''a'' ''2024-01-01''
        \<lparr>files = (\<lambda>p. None), wfail = (\<lambda>p. None), trace = []\<rparr>)) = (\<lambda>p. None)
   \<and> files \<lparr>files = (\<lambda>p. None)(notePath ''2024-01-02'' \<mapsto> ''[x] a'' @ CHR 0x0A # ''[ ] b''),
        wfail = (\<lambda>p. None), trace = []\<rparr> (notePath ''2024-01-02'')
      = Some (''[x] a'' @ CHR 0x0A # ''[ ] b'')
   \<and> fst (completeTODO ''a'' ''2024-01-02''
        \<lparr>files = (\<lambda>p. None)(notePath ''2024-01-02'' \<mapsto> ''[x] a'' @ CHR 0x0A # ''[ ] b''),
         wfail = (\<lambda>p. None), trace = []\<rparr>) = FailureTodo ''TODO not found'' ''a''
   \<and> files (snd (completeTODO ''a'' ''2024-01-02''
        \<lparr>files = (\<lambda>p. None)(notePath ''2024-01-02'' \<mapsto> ''[x] a'' @ CHR 0x0A # ''[ ] b''),
         wfail = (\<lambda>p. None), trace = []\<rparr>))
      = (\<lambda>p. None)(notePath ''2024-01-02'' \<mapsto> ''[x] a'' @ CHR 0x0A # ''[ ] b'')"
  using completeTODO_failure_atomic [of
      "\<lparr>files = (\<lambda>p. None), wfail = (\<lambda>p. None), trace = []\<rparr>" "''2024-01-01''" "''a''"]
    completeTODO_failure_atomic [of
      "\<lparr>files = (\<lambda>p. None)(notePath ''2024-01-02'' \<mapsto> ''[x] a'' @ CHR 0x0A # ''[ ] b''),
        wfail = (\<lambda>p. None), trace = []\<rparr>" "''2024-01-02''" "''a''"]
  by (simp add: trim_def isWhiteSpace_def startsWith_def todoMarker_def)

lemma withIndex_nth: "withIndex xs = map (\<lambda>i. (xs ! i, i)) [0..<length xs]"
proof -
  have "zip (map ((!) xs) [0..<length xs]) [0..<length xs]
      = map (\<lambda>i. (xs ! i, i)) [0..<length xs]"
    by (simp add: zip_map1 zip_same_conv_map)
  then show ?thesis by (simp add: withIndex_def map_nth)
qed

text \<open>
  \<^verbatim>\<open>getTODOs\<close> on a note with content: the result has the three properties, and its
  items are, in order, the lines whose trimmed form starts with a marker, each with its
  zero-based index in the split, the text after the first four characters of the trimmed line,
  trimmed, and the done flag of the done marker.
\<close>

lemma getTODOs_present:
  assumes "files w (notePath d) = Some c" and "c \<noteq> []"
  shows "tr_date (fst (getTODOs d w)) = d
    \<and> tr_count (fst (getTODOs d w)) = Some (length (tr_todos (fst (getTODOs d w))))
    \<and> map ti_line (tr_todos (fst (getTODOs d w)))
        = filter (\<lambda>i. isTodoLine (split_nl c ! i)) [0..<length (split_nl c)]
    \<and> (\<forall>item \<in> set (tr_todos (fst (getTODOs d w))).
          ti_line item < length (split_nl c)
        \<and> ti_text item = trim (substring (trim (split_nl c ! ti_line item)) 4)
        \<and> ti_done item = startsWith (trim (split_nl c ! ti_line item)) doneMarker)"
proof -
  let ?ls = "split_nl c"
  let ?is = "filter (\<lambda>i. isTodoLine (?ls ! i)) [0..<length ?ls]"
  have "filter (\<lambda>(line, idx). isTodoLine line) (withIndex ?ls) = map (\<lambda>i. (?ls ! i, i)) ?is"
    by (simp add: withIndex_nth filter_map comp_def)
  then have r: "fst (getTODOs d w) =
      \<lparr>tr_todos = map (\<lambda>i. todoOfLine (?ls ! i, i)) ?is, tr_date = d,
       tr_count = Some (length ?is)\<rparr>"
    using assms
    by (simp add: getTODOs_def getDailyNote_def readFile_def falsy_def Let_def comp_def)
  have l: "map ti_line (map (\<lambda>i. todoOfLine (?ls ! i, i)) ?is) = ?is"
    by (simp add: todoOfLine_def comp_def)
  have e: "\<forall>item \<in> set (map (\<lambda>i. todoOfLine (?ls ! i, i)) ?is).
          ti_line item < length ?ls
        \<and> ti_text item = trim (substring (trim (?ls ! ti_line item)) 4)
        \<and> ti_done item = startsWith (trim (?ls ! ti_line item)) doneMarker"
    by (auto simp: todoOfLine_def)
  show ?thesis unfolding r using l e by simp
qed

text \<open>
  The line \<^verbatim>\<open>addTODO\<close> writes for any \<open>todo\<close> starts with a dash, so it is not a line that
  \<^verbatim>\<open>getTODOs\<close> selects.
\<close>

lemma addTODO_line_not_listed: "\<not> isTodoLine (''- '' @ todoMarker @ '' '' @ todo)"
proof -
  have "startsWith (trim (''-'' @ ('' '' @ todoMarker @ '' '' @ todo))) ''-''"
    by (rule trim_keeps_prefix) (simp_all add: isWhiteSpace_def)
  then have "hd (trim (''- '' @ todoMarker @ '' '' @ todo)) = CHR ''-''"
    by (cases "trim (''- '' @ todoMarker @ '' '' @ todo)") (simp_all add: startsWith_def)
  then show ?thesis
    by (cases "trim (''- '' @ todoMarker @ '' '' @ todo)")
      (auto simp: isTodoLine_def startsWith_def todoMarker_def doneMarker_def)
qed

text \<open>
  C1 at a concrete input: on an empty store, \<^verbatim>\<open>add_todo("write spec", "2024-01-01")\<close>
  writes the line \<^verbatim>\<open>- [ ] write spec\<close>, whose trimmed form starts with \<^verbatim>\<open>-\<close> and not
  with a marker, so the following \<^verbatim>\<open>get_todos("2024-01-01")\<close> returns no item at all.
\<close>

theorem addTODO_then_getTODOs_lists_nothing:
  "files (snd (addTODO ''write spec'' ''2024-01-01''
       \<lparr>files = (\<lambda>p. None), wfail = (\<lambda>p. None), trace = []\<rparr>)) (notePath ''2024-01-01'')
     = Some (CHR 0x0A # ''## TODOs'' @ CHR 0x0A # ''- [ ] write spec'' @ [CHR 0x0A])
   \<and> fst (getTODOs ''2024-01-01'' (snd (addTODO ''write spec'' ''2024-01-01''
       \<lparr>files = (\<lambda>p. None), wfail = (\<lambda>p. None), trace = []\<rparr>)))
     = \<lparr>tr_todos = [], tr_date = ''2024-01-01'', tr_count = Some 0\<rparr>"
  by code_simp

text \<open>
  C4 at a concrete input: the note is the single indented line \<^verbatim>\<open>  [ ] a\<close>. Completing
  \<^verbatim>\<open>a\<close> stores \<^verbatim>\<open>[x] a\<close>: the line is assigned its trimmed form with the marker
  replaced, so the two leading blanks are lost, where replacing the marker token alone gives
  \<^verbatim>\<open>  [x] a\<close>.
\<close>

theorem completeTODO_rewrites_trimmed_line:
  "fst (completeTODO ''a'' ''2024-01-01''
       \<lparr>files = (\<lambda>p. None)(notePath ''2024-01-01'' \<mapsto> ''  [ ] a''), wfail = (\<lambda>p. None),
        trace = []\<rparr>) = Completed True ''a''
   \<and> files (snd (completeTODO ''a'' ''2024-01-01''
       \<lparr>files = (\<lambda>p. None)(notePath ''2024-01-01'' \<mapsto> ''  [ ] a''), wfail = (\<lambda>p. None),
        trace = []\<rparr>)) (notePath ''2024-01-01'') = Some ''[x] a''
   \<and> replace ''  [ ] a'' todoMarker doneMarker = ''  [x] a''"
  by code_simp

text \<open>
  C9 at a concrete input: for a date without a note the result of \<^verbatim>\<open>get_todos\<close> has an
  empty \<^verbatim>\<open>todos\<close> list and the date, and no \<^verbatim>\<open>count\<close>.
\<close>

theorem getTODOs_absent_has_no_count:
  "fst (getTODOs ''2024-01-01'' \<lparr>files = (\<lambda>p. None), wfail = (\<lambda>p. None), trace = []\<rparr>)
     = \<lparr>tr_todos = [], tr_date = ''2024-01-01'', tr_count = None\<rparr>"
  by (simp add: getTODOs_def getDailyNote_def readFile_def falsy_def Let_def)

lemma getTODOs_item:
  assumes "files w (notePath d) = Some c" and "c \<noteq> []"
    and "i < length (split_nl c)" and "isTodoLine (split_nl c ! i)"
  shows "todoOfLine (split_nl c ! i, i) \<in> set (tr_todos (fst (getTODOs d w)))"
proof -
  have "(split_nl c ! i, i) \<in> set (filter (\<lambda>(line, idx). isTodoLine line) (withIndex (split_nl c)))"
    using assms(3,4) by (auto simp: set_withIndex)
  then show ?thesis
    using assms(1,2)
    by (simp add: getTODOs_def getDailyNote_def readFile_def falsy_def Let_def)
qed

text \<open>
  What \<^verbatim>\<open>completeTODO\<close> does when it finds a line: with \<open>i\<close> the first line whose trimmed
  form starts with the pending marker and contains the text, line \<open>i\<close> becomes the done
  marker followed by what came after the pending marker in its trimmed form, and every other
  line stays as it was.
\<close>

lemma completeTODO_flips_first:
  assumes "files w (notePath d) = Some c"
    and "\<exists>l \<in> set (split_nl c). startsWith (trim l) todoMarker \<and> includesStr (trim l) t"
    and "wfail w (notePath d) = None"
  shows "\<exists>i < length (split_nl c).
      startsWith (trim (split_nl c ! i)) todoMarker
    \<and> includesStr (trim (split_nl c ! i)) t
    \<and> (\<forall>j < i. \<not> (startsWith (trim (split_nl c ! j)) todoMarker
                    \<and> includesStr (trim (split_nl c ! j)) t))
    \<and> fst (completeTODO t d w) = Completed True t
    \<and> files (snd (completeTODO t d w)) (notePath d) =
        Some (join_nl ((split_nl c)[i := doneMarker @ drop (length todoMarker) (trim (split_nl c ! i))]))
    \<and> split_nl (join_nl ((split_nl c)[i := doneMarker @ drop (length todoMarker) (trim (split_nl c ! i))]))
        = (split_nl c)[i := doneMarker @ drop (length todoMarker) (trim (split_nl c ! i))]
    \<and> \<lparr>ti_text = trim (substring (trim (split_nl c ! i)) 4), ti_done = True, ti_line = i\<rparr>
        \<in> set (tr_todos (fst (getTODOs d (snd (completeTODO t d w)))))"
proof -
  let ?ls = "split_nl c"
  let ?p = "notePath d"
  have snd': "snd (completeLoop t ?ls)"
    using assms(2) by (simp add: completeLoop_found_iff)
  from completeLoop_first [OF snd'] obtain i where i: "i < length ?ls"
    "startsWith (trim (?ls ! i)) todoMarker"
    "includesStr (trim (?ls ! i)) t"
    "\<forall>j < i. \<not> (startsWith (trim (?ls ! j)) todoMarker \<and> includesStr (trim (?ls ! j)) t)"
    "fst (completeLoop t ?ls) = ?ls[i := replace (trim (?ls ! i)) todoMarker doneMarker]"
    by blast
  let ?new = "doneMarker @ drop (length todoMarker) (trim (?ls ! i))"
  let ?ls' = "?ls[i := ?new]"
  have fst': "fst (completeLoop t ?ls) = ?ls'"
    using i(5) replace_at_start [OF i(2)] by simp
  have cne: "c \<noteq> []"
  proof
    assume "c = []"
    then have "?ls ! i = []" using i(1) by simp
    then show False using i(2) by (simp add: trim_def startsWith_def todoMarker_def)
  qed
  have cl: "completeLoop t ?ls = (?ls', True)"
    using snd' fst' by (cases "completeLoop t ?ls") simp
  have run: "completeTODO t d w =
      (Completed True t,
       w\<lparr>files := (files w)(?p \<mapsto> join_nl ?ls'),
         trace := trace w @ [ReadEv ?p, WriteEv ?p (join_nl ?ls')]\<rparr>)"
    using assms(1,3) cne cl
    by (simp add: completeTODO_def readFile_def writeFile_def falsy_def orEmpty_def Let_def)
  have nonl: "CHR 0x0A \<notin> set ?new"
  proof -
    have "set (drop (length todoMarker) (trim (?ls ! i))) \<subseteq> set (?ls ! i)"
      using set_trim [of "?ls ! i"] set_drop_subset [of "length todoMarker" "trim (?ls ! i)"]
      by blast
    moreover have "CHR 0x0A \<notin> set (?ls ! i)"
      using split_nl_no_newline [of "?ls ! i" c] i(1) by simp
    ultimately show ?thesis by (auto simp: doneMarker_def)
  qed
  have "\<forall>l \<in> set ?ls'. CHR 0x0A \<notin> set l"
  proof
    fix l assume "l \<in> set ?ls'"
    then have "l = ?new \<or> l \<in> set ?ls"
      using set_update_subset_insert [of ?ls i ?new] by auto
    then show "CHR 0x0A \<notin> set l"
      using nonl split_nl_no_newline [of l c] by auto
  qed
  moreover have "?ls' \<noteq> []" using i(1) by auto
  ultimately have sj: "split_nl (join_nl ?ls') = ?ls'"
    by (rule split_join [rotated])
  have done': "startsWith (trim ?new) doneMarker"
    by (rule trim_keeps_prefix) (simp_all add: doneMarker_def isWhiteSpace_def)
  have todo': "isTodoLine (?ls' ! i)"
    using i(1) done' by (simp add: isTodoLine_def)
  have ne: "join_nl ?ls' \<noteq> []"
  proof
    assume e: "join_nl ?ls' = []"
    then have one: "?ls' = [[]]" using sj by simp
    then have "length ?ls = 1"
      using length_list_update [of ?ls i ?new] by simp
    then have "i = 0" using i(1) by simp
    then have "?ls' ! i = []" using one by simp
    then show False using i(1) by (simp add: doneMarker_def)
  qed
  have item: "todoOfLine (split_nl (join_nl ?ls') ! i, i)
      \<in> set (tr_todos (fst (getTODOs d (snd (completeTODO t d w)))))"
    by (rule getTODOs_item) (use run ne sj i(1) todo' in simp_all)
  have tne: "trim (?ls ! i) \<noteq> []"
    using i(2) by (auto simp: startsWith_def todoMarker_def)
  have "last ?new = (if drop (length todoMarker) (trim (?ls ! i)) = [] then CHR '']''
      else last (trim (?ls ! i)))"
    by (simp add: doneMarker_def)
  then have "\<not> isWhiteSpace (last ?new)"
    using trim_last [OF tne] by (simp add: isWhiteSpace_def)
  then have tn: "trim ?new = ?new"
    by (intro trim_id) (simp_all add: doneMarker_def isWhiteSpace_def)
  have tx: "substring (trim ?new) 4 = substring (trim (?ls ! i)) 4"
    unfolding tn by (simp add: substring_def doneMarker_def todoMarker_def eval_nat_numeral)
  have "todoOfLine (split_nl (join_nl ?ls') ! i, i) =
      \<lparr>ti_text = trim (substring (trim (?ls ! i)) 4), ti_done = True, ti_line = i\<rparr>"
    using i(1) done' tx by (simp add: todoOfLine_def sj)
  then show ?thesis
    using i(1,2,3,4) run sj item by (intro exI [of _ i]) simp
qed

text \<open>
  C10. When the note of the date exists and one of its lines has a trimmed form that starts
  with the pending marker, and the write goes through, \<^verbatim>\<open>complete_todo\<close> with the empty
  text succeeds: with \<open>i\<close> the first such line, the stored document is the old one with
  line \<open>i\<close> replaced by the done marker followed by what came after the pending marker in
  its trimmed form, every other line as it was, and a following \<^verbatim>\<open>get_todos\<close> lists
  line \<open>i\<close> as done, with the text it had.
\<close>

theorem completeTODO_empty_text:
  assumes "files w (notePath d) = Some c"
    and "\<exists>l \<in> set (split_nl c). startsWith (trim l) todoMarker"
    and "wfail w (notePath d) = None"
  shows "\<exists>i < length (split_nl c).
      startsWith (trim (split_nl c ! i)) todoMarker
    \<and> (\<forall>j < i. \<not> startsWith (trim (split_nl c ! j)) todoMarker)
    \<and> fst (completeTODO [] d w) = Completed True []
    \<and> files (snd (completeTODO [] d w)) (notePath d) =
        Some (join_nl ((split_nl c)[i := doneMarker @ drop (length todoMarker) (trim (split_nl c ! i))]))
    \<and> split_nl (join_nl ((split_nl c)[i := doneMarker @ drop (length todoMarker) (trim (split_nl c ! i))]))
        = (split_nl c)[i := doneMarker @ drop (length todoMarker) (trim (split_nl c ! i))]
    \<and> \<lparr>ti_text = trim (substring (trim (split_nl c ! i)) 4), ti_done = True, ti_line = i\<rparr>
        \<in> set (tr_todos (fst (getTODOs d (snd (completeTODO [] d w)))))"
proof -
  have "\<exists>l \<in> set (split_nl c). startsWith (trim l) todoMarker \<and> includesStr (trim l) []"
    using assms(2) by (simp add: includesStr_empty)
  from completeTODO_flips_first [OF assms(1) this assms(3)]
  show ?thesis by (simp add: includesStr_empty)
qed

theorem completeTODO_empty_text_witness:
  "files \<lparr>files = (\<lambda>p. None)(notePath ''2024-01-01'' \<mapsto>
              ''# T'' @ CHR 0x0A # ''[x] a'' @ CHR 0x0A # '' [ ] b'' @ CHR 0x0A # ''[ ] c''),
          wfail = (\<lambda>p. None), trace = []\<rparr> (notePath ''2024-01-01'')
     = Some (''# T'' @ CHR 0x0A # ''[x] a'' @ CHR 0x0A # '' [ ] b'' @ CHR 0x0A # ''[ ] c'')
   \<and> '' [ ] b'' \<in> set (split_nl
         (''# T'' @ CHR 0x0A # ''[x] a'' @ CHR 0x0A # '' [ ] b'' @ CHR 0x0A # ''[ ] c''))
   \<and> startsWith (trim '' [ ] b'') todoMarker
   \<and> wfail \<lparr>files = (\<lambda>p. None)(notePath ''2024-01-01'' \<mapsto>
              ''# T'' @ CHR 0x0A # ''[x] a'' @ CHR 0x0A # '' [ ] b'' @ CHR 0x0A # ''[ ] c''),
          wfail = (\<lambda>p. None), trace = []\<rparr> (notePath ''2024-01-01'') = None
   \<and> fst (completeTODO [] ''2024-01-01''
        \<lparr>files = (\<lambda>p. None)(notePath ''2024-01-01'' \<mapsto>
              ''# T'' @ CHR 0x0A # ''[x] a'' @ CHR 0x0A # '' [ ] b'' @ CHR 0x0A # ''[ ] c''),
          wfail = (\<lambda>p. None), trace = []\<rparr>) = Completed True []
   \<and> files (snd (completeTODO [] ''2024-01-01''
        \<lparr>files = (\<lambda>p. None)(notePath ''2024-01-01'' \<mapsto>
              ''# T'' @ CHR 0x0A # ''[x] a'' @ CHR 0x0A # '' [ ] b'' @ CHR 0x0A # ''[ ] c''),
          wfail = (\<lambda>p. None), trace = []\<rparr>)) (notePath ''2024-01-01'')
     = Some (''# T'' @ CHR 0x0A # ''[x] a'' @ CHR 0x0A # ''[x] b'' @ CHR 0x0A # ''[ ] c'')"
proof -
  let ?c = "''# T'' @ CHR 0x0A # ''[x] a'' @ CHR 0x0A # '' [ ] b'' @ CHR 0x0A # ''[ ] c''"
  let ?W = "\<lparr>files = (\<lambda>p. None)(notePath ''2024-01-01'' \<mapsto> ?c), wfail = (\<lambda>p. None),
             trace = []\<rparr>"
  have h1: "files ?W (notePath ''2024-01-01'') = Some ?c" by simp
  have m: "'' [ ] b'' \<in> set (split_nl ?c)" by simp
  have s: "startsWith (trim '' [ ] b'') todoMarker"
    by (simp add: trim_def isWhiteSpace_def startsWith_def todoMarker_def)
  have h2: "\<exists>l \<in> set (split_nl ?c). startsWith (trim l) todoMarker"
    using m s by blast
  have h3: "wfail ?W (notePath ''2024-01-01'') = None" by simp
  have r: "fst (completeTODO [] ''2024-01-01'' ?W) = Completed True []"
    using completeTODO_empty_text [OF h1 h2 h3] by blast
  have f: "files (snd (completeTODO [] ''2024-01-01'' ?W)) (notePath ''2024-01-01'')
     = Some (''# T'' @ CHR 0x0A # ''[x] a'' @ CHR 0x0A # ''[x] b'' @ CHR 0x0A # ''[ ] c'')"
    by code_simp
  show ?thesis using h1 m s h3 r f by blast
qed

end
